theory Spec2Isabelle
  imports Complex_Main
begin

section \<open>Shared values\<close>

text \<open>
  The two screens of the business directory talk to one backend client. A backend
  error is a JavaScript object whose \<open>message\<close> may be missing; a file chosen in
  a file input has a name and a body.
\<close>

datatype error = Error (message: "string option")

record File =
  file_name :: string
  file_body :: string

text \<open>
  \<open>x || y\<close> on a string \<open>x\<close>: the empty string is falsy, so \<open>y\<close> is taken;
  \<open>or_null\<close> is \<open>x || null\<close>.
\<close>

definition or_null :: "string \<Rightarrow> string option" where
  "or_null x = (if x = [] then None else Some x)"

text \<open>
  \<open>error.message || fallback\<close>: a missing message and an empty message are both
  falsy.
\<close>

definition message_or :: "error \<Rightarrow> string \<Rightarrow> string" where
  "message_or e fallback =
     (case message e of None \<Rightarrow> fallback
      | Some m \<Rightarrow> (if m = [] then fallback else m))"

text \<open>
  A number inside a template literal is printed in decimal (the timestamps and
  indices printed here are far below the magnitude where JavaScript switches to
  exponent notation).
\<close>

definition digit_char :: "nat \<Rightarrow> char" where
  "digit_char d = ''0123456789'' ! (d mod 10)"

fun show_nat :: "nat \<Rightarrow> string" where
  "show_nat n = (if n < 10 then [digit_char n] else show_nat (n div 10) @ [digit_char n])"

declare show_nat.simps [simp del]

section \<open>Directory gallery: \<open>PopularBusinesses.tsx\<close>\<close>

text \<open>
  The rows returned by \<open>get_public_businesses\<close>. The rating is a finite JSON
  number, modelled as a rational; a nullable column is an option.
\<close>

record Business =
  b_id :: string
  b_name :: string
  b_description :: string
  b_category :: string
  b_city :: string
  b_state :: string
  rating :: rat
  b_image_url :: string
  b_website :: string
  b_product_images :: "string list option"

datatype log_entry = ConsoleError string error

record PopularBusinesses =
  businesses :: "Business list"
  gallery_loading :: bool
  gallery_console :: "log_entry list"

text \<open>\<open>useState([])\<close>, \<open>useState(true)\<close>.\<close>

definition gallery_initial :: PopularBusinesses where
  "gallery_initial = \<lparr>businesses = [], gallery_loading = True, gallery_console = []\<rparr>"

text \<open>
  \<open>await supabase.rpc(...)\<close> either resolves to an object \<open>{data, error}\<close>, both
  nullable, or rejects.
\<close>

datatype rpc_outcome =
  Resolved (rpc_data: "Business list option") (rpc_error: "error option")
| Rejected error

text \<open>
  \<open>try { body } catch (e) { handler } finally { fin }\<close> over an explicit state:
  a computation returns \<open>Inl\<close> for a throw and \<open>Inr\<close> for normal completion,
  and the \<open>finally\<close> block runs on every path.
\<close>

definition try_catch_finally ::
  "('s \<Rightarrow> ('e + 'a) \<times> 's) \<Rightarrow> ('e \<Rightarrow> 's \<Rightarrow> ('e + 'a) \<times> 's) \<Rightarrow> ('s \<Rightarrow> 's)
     \<Rightarrow> 's \<Rightarrow> ('e + 'a) \<times> 's" where
  "try_catch_finally body handler fin s =
     (case body s of
        (Inl e, s1) \<Rightarrow> (case handler e s1 of (r, s2) \<Rightarrow> (r, fin s2))
      | (Inr v, s1) \<Rightarrow> (Inr v, fin s1))"

definition fetch_body :: "rpc_outcome \<Rightarrow> PopularBusinesses \<Rightarrow> (error + unit) \<times> PopularBusinesses" where
  "fetch_body outcome g =
     (case outcome of
        Rejected e \<Rightarrow> (Inl e, g)
      | Resolved data err \<Rightarrow>
          (case err of
             Some e \<Rightarrow>
               (Inr (), g\<lparr>gallery_console :=
                           gallery_console g @ [ConsoleError ''Error fetching businesses:'' e]\<rparr>)
           | None \<Rightarrow>
               (case data of
                  Some rows \<Rightarrow> (Inr (), g\<lparr>businesses := rows\<rparr>)
                | None \<Rightarrow> (Inr (), g))))"

definition fetchBusinesses :: "rpc_outcome \<Rightarrow> PopularBusinesses \<Rightarrow> (error + unit) \<times> PopularBusinesses" where
  "fetchBusinesses outcome =
     try_catch_finally (fetch_body outcome)
       (\<lambda>e g. (Inr (), g\<lparr>gallery_console := gallery_console g @ [ConsoleError ''Error:'' e]\<rparr>))
       (\<lambda>g. g\<lparr>gallery_loading := False\<rparr>)"

text \<open>
  The star row: position \<open>index\<close> of five is filled (\<open>True\<close>) when
  \<open>index < rating\<close>. The second card component, \<open>BusinessCard\<close>, compares with
  \<open>Math.floor(rating)\<close> instead.
\<close>

definition renderStars :: "rat \<Rightarrow> bool list" where
  "renderStars r = map (\<lambda>index. of_nat index < r) [0..<5]"

definition BusinessCard_renderStars :: "rat \<Rightarrow> bool list" where
  "BusinessCard_renderStars r = map (\<lambda>i. int i < \<lfloor>r\<rfloor>) [0..<5]"

definition filled :: "bool list \<Rightarrow> nat" where
  "filled stars = length (filter (\<lambda>b. b) stars)"

text \<open>What one card of the gallery shows.\<close>

record card =
  card_key :: string
  card_image :: string
  card_stars :: "bool list"
  card_logo :: string
  card_title :: string
  card_location :: string
  card_description :: "string option"
  card_badges :: "string list"

definition render_card :: "Business \<Rightarrow> card" where
  "render_card business =
     \<lparr>card_key = b_id business,
      card_image =
        (case b_product_images business of
           Some (img # imgs) \<Rightarrow> img
         | _ \<Rightarrow> ''https://images.unsplash.com/photo-1441986300917-64674bd600d8?w=320&h=200&fit=crop''),
      card_stars = renderStars (rating business),
      card_logo =
        (if b_image_url business = []
         then ''https://images.unsplash.com/photo-1592659762303-90081d34b277?w=40&h=40&fit=crop''
         else b_image_url business),
      card_title = b_name business,
      card_location = b_city business @ '', '' @ b_state business,
      card_description =
        (if b_description business = [] then None else Some (b_description business)),
      card_badges =
        [''Cash on Delivery'', ''Pickup In-Store'', ''Digital Payments'', ''Next-Day Delivery'']\<rparr>"

text \<open>
  The component renders the loading text while \<open>loading\<close> holds and the cards
  otherwise; there is no third view.
\<close>

datatype view = LoadingView | CardsView "card list"

definition render :: "PopularBusinesses \<Rightarrow> view" where
  "render g = (if gallery_loading g then LoadingView else CardsView (map render_card (businesses g)))"

section \<open>Listing submission screen: \<open>ListBusiness\<close>\<close>

record BusinessFormData =
  name :: string
  description :: string
  category :: string
  phone :: string
  licenseExpiredDate :: string
  address :: string
  city :: string
  state :: string
  zipCode :: string
  website :: string
  facebookPage :: string
  tiktokUrl :: string
  startingPrice :: string
  options :: "string list"
  productsCatalog :: string

text \<open>The text fields that \<open>handleInputChange\<close> is called with.\<close>

datatype field =
  F_name | F_description | F_category | F_phone | F_licenseExpiredDate | F_address
| F_city | F_state | F_zipCode | F_website | F_facebookPage | F_tiktokUrl
| F_startingPrice | F_productsCatalog

record User =
  user_id :: string

text \<open>
  The object passed to \<open>insert\<close>. Its keys are those of the source; the keys that
  the form record also has carry the prefix \<open>row_\<close>. A value that may be
  \<open>null\<close> is an option.
\<close>

record insert_row =
  owner_id :: string
  row_name :: string
  row_description :: string
  row_category :: string
  row_phone :: string
  row_address :: string
  row_city :: string
  row_state :: string
  zip_code :: string
  row_website :: "string option"
  image_url :: "string option"
  facebook_page :: "string option"
  tiktok_url :: "string option"
  starting_price :: "string option"
  business_options :: "string list option"
  products_catalog :: "string option"
  license_expired_date :: "string option"
  product_images :: "string list option"

record upload_request =
  bucket :: string
  path :: string
  body :: File
  cacheControl :: string
  upsert :: bool

datatype call = Upload upload_request | Insert string insert_row

record toast_msg =
  toast_title :: string
  toast_description :: string
  toast_variant :: "string option"

text \<open>
  The component's state (\<open>user\<close> from \<open>useAuth\<close>, the four \<open>useState\<close> cells)
  together with a log of what it has done to the outside: backend calls, toasts,
  navigations, console output, and how often it has read the clock.
\<close>

record ListBusiness =
  user :: "User option"
  loading :: bool
  logoFile :: "File option"
  productImages :: "File list"
  formData :: BusinessFormData
  calls :: "call list"
  toasts :: "toast_msg list"
  navigations :: "string list"
  console :: "log_entry list"
  ticks :: nat

text \<open>
  The outside world: what the storage and the table answer to a request, given
  the calls issued before it; the public URL of a stored path; the value of the
  \<open>k\<close>-th reading of \<open>Date.now()\<close>; and which of several rejected uploads
  settles first.
\<close>

record env =
  storage_upload :: "call list \<Rightarrow> upload_request \<Rightarrow> error + string"
  getPublicUrl :: "string \<Rightarrow> string \<Rightarrow> string"
  db_insert :: "call list \<Rightarrow> insert_row \<Rightarrow> error option"
  clock :: "nat \<Rightarrow> nat"
  race :: nat

definition initial_formData :: BusinessFormData where
  "initial_formData =
     \<lparr>name = [], description = [], category = [], phone = [], licenseExpiredDate = [],
      address = [], city = [], state = [], zipCode = [], website = [], facebookPage = [],
      tiktokUrl = [], startingPrice = [], options = [], productsCatalog = []\<rparr>"

definition initial :: "User option \<Rightarrow> ListBusiness" where
  "initial u =
     \<lparr>user = u, loading = False, logoFile = None, productImages = [],
      formData = initial_formData, calls = [], toasts = [], navigations = [],
      console = [], ticks = 0\<rparr>"

fun set_field :: "field \<Rightarrow> string \<Rightarrow> BusinessFormData \<Rightarrow> BusinessFormData" where
  "set_field F_name v prev = prev\<lparr>name := v\<rparr>"
| "set_field F_description v prev = prev\<lparr>description := v\<rparr>"
| "set_field F_category v prev = prev\<lparr>category := v\<rparr>"
| "set_field F_phone v prev = prev\<lparr>phone := v\<rparr>"
| "set_field F_licenseExpiredDate v prev = prev\<lparr>licenseExpiredDate := v\<rparr>"
| "set_field F_address v prev = prev\<lparr>address := v\<rparr>"
| "set_field F_city v prev = prev\<lparr>city := v\<rparr>"
| "set_field F_state v prev = prev\<lparr>state := v\<rparr>"
| "set_field F_zipCode v prev = prev\<lparr>zipCode := v\<rparr>"
| "set_field F_website v prev = prev\<lparr>website := v\<rparr>"
| "set_field F_facebookPage v prev = prev\<lparr>facebookPage := v\<rparr>"
| "set_field F_tiktokUrl v prev = prev\<lparr>tiktokUrl := v\<rparr>"
| "set_field F_startingPrice v prev = prev\<lparr>startingPrice := v\<rparr>"
| "set_field F_productsCatalog v prev = prev\<lparr>productsCatalog := v\<rparr>"

definition handleInputChange :: "field \<Rightarrow> string \<Rightarrow> ListBusiness \<Rightarrow> ListBusiness" where
  "handleInputChange fld v s = s\<lparr>formData := set_field fld v (formData s)\<rparr>"

text \<open>The updater passed to \<open>setFormData\<close> by \<open>handleOptionChange\<close>.\<close>

definition option_update :: "string \<Rightarrow> bool \<Rightarrow> BusinessFormData \<Rightarrow> BusinessFormData" where
  "option_update option checked prev =
     prev\<lparr>options := (if checked then options prev @ [option]
                        else filter (\<lambda>opt. opt \<noteq> option) (options prev))\<rparr>"

definition handleOptionChange :: "string \<Rightarrow> bool \<Rightarrow> ListBusiness \<Rightarrow> ListBusiness" where
  "handleOptionChange option checked s = s\<lparr>formData := option_update option checked (formData s)\<rparr>"

text \<open>\<open>e.target.files\<close> is a file list or \<open>null\<close>.\<close>

definition handleLogoChange :: "File list option \<Rightarrow> ListBusiness \<Rightarrow> ListBusiness" where
  "handleLogoChange files s =
     (case files of
        Some (f # fs) \<Rightarrow> s\<lparr>logoFile := Some f\<rparr>
      | _ \<Rightarrow> s)"

definition handleProductImagesChange :: "File list option \<Rightarrow> ListBusiness \<Rightarrow> ListBusiness" where
  "handleProductImagesChange files s =
     (case files of
        Some fs \<Rightarrow> s\<lparr>productImages := take 3 fs\<rparr>
      | None \<Rightarrow> s)"

definition Date_now :: "env \<Rightarrow> ListBusiness \<Rightarrow> nat \<times> ListBusiness" where
  "Date_now env s = (clock env (ticks s), s\<lparr>ticks := Suc (ticks s)\<rparr>)"

definition toast :: "toast_msg \<Rightarrow> ListBusiness \<Rightarrow> ListBusiness" where
  "toast t s = s\<lparr>toasts := toasts s @ [t]\<rparr>"

definition navigate :: "string \<Rightarrow> ListBusiness \<Rightarrow> ListBusiness" where
  "navigate to s = s\<lparr>navigations := navigations s @ [to]\<rparr>"

definition console_error :: "string \<Rightarrow> error \<Rightarrow> ListBusiness \<Rightarrow> ListBusiness" where
  "console_error label e s = s\<lparr>console := console s @ [ConsoleError label e]\<rparr>"

definition setLoading :: "bool \<Rightarrow> ListBusiness \<Rightarrow> ListBusiness" where
  "setLoading b s = s\<lparr>loading := b\<rparr>"

text \<open>
  \<open>uploadFile\<close> issues one storage call; an error result is thrown, a stored path
  is turned into its public URL.
\<close>

definition uploadFile ::
  "env \<Rightarrow> File \<Rightarrow> string \<Rightarrow> string \<Rightarrow> ListBusiness \<Rightarrow> (error + string) \<times> ListBusiness" where
  "uploadFile env file bkt pth s =
     (let req = \<lparr>bucket = bkt, path = pth, body = file, cacheControl = ''3600'', upsert = False\<rparr>;
          s' = s\<lparr>calls := calls s @ [Upload req]\<rparr>
      in case storage_upload env (calls s) req of
           Inl err \<Rightarrow> (Inl err, s')
         | Inr data_path \<Rightarrow> (Inr (getPublicUrl env bkt data_path), s'))"

text \<open>
  \<open>productImages.map((file, index) => ...)\<close>: every upload is started, in index
  order, each with its own clock reading, before any result is looked at.
\<close>

fun uploadPromises ::
  "env \<Rightarrow> User \<Rightarrow> nat \<Rightarrow> File list \<Rightarrow> ListBusiness \<Rightarrow> (error + string) list \<times> ListBusiness" where
  "uploadPromises env u index [] s = ([], s)"
| "uploadPromises env u index (file # files) s =
     (case Date_now env s of
        (now, s1) \<Rightarrow>
          (case uploadFile env file ''business-assets''
                  (''products/'' @ user_id u @ ''/'' @ show_nat now @ ''_'' @ show_nat index
                     @ ''_'' @ file_name file) s1 of
             (r, s2) \<Rightarrow>
               (case uploadPromises env u (Suc index) files s2 of
                  (rs, s3) \<Rightarrow> (r # rs, s3))))"

fun rejections :: "('e + 'a) list \<Rightarrow> 'e list" where
  "rejections [] = []"
| "rejections (Inl e # rs) = e # rejections rs"
| "rejections (Inr v # rs) = rejections rs"

fun fulfilled :: "('e + 'a) list \<Rightarrow> 'a list" where
  "fulfilled [] = []"
| "fulfilled (Inl e # rs) = fulfilled rs"
| "fulfilled (Inr v # rs) = v # fulfilled rs"

text \<open>
  \<open>Promise.all\<close>: the values in order when nothing is rejected, otherwise the
  rejection that settles first, which the argument \<open>k\<close> picks.
\<close>

definition Promise_all :: "nat \<Rightarrow> ('e + 'a) list \<Rightarrow> 'e + 'a list" where
  "Promise_all k rs =
     (case rejections rs of
        [] \<Rightarrow> Inr (fulfilled rs)
      | e # es \<Rightarrow> Inl ((e # es) ! (k mod length (e # es))))"

text \<open>The object literal of the \<open>insert\<close> call.\<close>

definition insert_payload :: "User \<Rightarrow> BusinessFormData \<Rightarrow> string \<Rightarrow> string list \<Rightarrow> insert_row" where
  "insert_payload u fd logoUrl imageUrls =
     \<lparr>owner_id = user_id u,
      row_name = name fd,
      row_description = description fd,
      row_category = category fd,
      row_phone = phone fd,
      row_address = address fd,
      row_city = city fd,
      row_state = state fd,
      zip_code = zipCode fd,
      row_website = Some (website fd),
      image_url = or_null logoUrl,
      facebook_page = or_null (facebookPage fd),
      tiktok_url = or_null (tiktokUrl fd),
      starting_price = or_null (startingPrice fd),
      business_options = (if length (options fd) > 0 then Some (options fd) else None),
      products_catalog = or_null (productsCatalog fd),
      license_expired_date = or_null (licenseExpiredDate fd),
      product_images = (if length imageUrls > 0 then Some imageUrls else None)\<rparr>"

text \<open>
  The \<open>try\<close> block of \<open>handleSubmit\<close>, in its three stages: the logo, the
  product images, the insert. The handler closes over the \<open>logoFile\<close>,
  \<open>productImages\<close> and \<open>formData\<close> of the render it belongs to, and no stage
  writes to them, so each stage reads them from the state it is given.
\<close>

definition upload_logo :: "env \<Rightarrow> User \<Rightarrow> ListBusiness \<Rightarrow> (error + string) \<times> ListBusiness" where
  "upload_logo env u s =
     (case logoFile s of
        None \<Rightarrow> (Inr [], s)
      | Some lf \<Rightarrow>
          (case Date_now env s of
             (now, s1) \<Rightarrow>
               uploadFile env lf ''business-assets''
                 (''logos/'' @ user_id u @ ''/'' @ show_nat now @ ''_'' @ file_name lf) s1))"

definition upload_products :: "env \<Rightarrow> User \<Rightarrow> ListBusiness \<Rightarrow> (error + string list) \<times> ListBusiness" where
  "upload_products env u s =
     (if length (productImages s) > 0
      then (case uploadPromises env u 0 (productImages s) s of
              (rs, s1) \<Rightarrow> (Promise_all (race env) rs, s1))
      else (Inr [], s))"

definition insert_business ::
  "env \<Rightarrow> User \<Rightarrow> string \<Rightarrow> string list \<Rightarrow> ListBusiness \<Rightarrow> (error + unit) \<times> ListBusiness" where
  "insert_business env u logoUrl imageUrls s =
     (let row = insert_payload u (formData s) logoUrl imageUrls;
          s1 = s\<lparr>calls := calls s @ [Insert ''businesses'' row]\<rparr>
      in case db_insert env (calls s) row of
           Some err \<Rightarrow> (Inl err, s1)
         | None \<Rightarrow>
             (Inr (),
              navigate ''/dashboard''
                (toast \<lparr>toast_title = ''Success!'',
                        toast_description = ''Your business has been listed successfully.'',
                        toast_variant = None\<rparr> s1)))"

definition submit_body :: "env \<Rightarrow> User \<Rightarrow> ListBusiness \<Rightarrow> (error + unit) \<times> ListBusiness" where
  "submit_body env u s =
     (case upload_logo env u s of
        (Inl err, s1) \<Rightarrow> (Inl err, s1)
      | (Inr logoUrl, s1) \<Rightarrow>
          (case upload_products env u s1 of
             (Inl err, s2) \<Rightarrow> (Inl err, s2)
           | (Inr imageUrls, s2) \<Rightarrow> insert_business env u logoUrl imageUrls s2))"

definition submit_catch :: "error \<Rightarrow> ListBusiness \<Rightarrow> (error + unit) \<times> ListBusiness" where
  "submit_catch err s =
     (Inr (),
      toast \<lparr>toast_title = ''Error'',
             toast_description = message_or err ''Failed to list business. Please try again.'',
             toast_variant = Some ''destructive''\<rparr>
        (console_error ''Error listing business:'' err s))"

text \<open>
  \<open>handleSubmit\<close>: the early return when nobody is signed in, otherwise
  \<open>setLoading(true)\<close> and the \<open>try\<close>/\<open>catch\<close>/\<open>finally\<close>. The handler
  awaits every call before it goes on, and the submit button is disabled while
  \<open>loading\<close> holds; one submission is therefore one step of the model.
  \<open>e.preventDefault()\<close> only stops the browser's page reload and has no
  counterpart here.
\<close>

definition handleSubmit :: "env \<Rightarrow> ListBusiness \<Rightarrow> (error + unit) \<times> ListBusiness" where
  "handleSubmit env s =
     (case user s of
        None \<Rightarrow>
          (Inr (),
           navigate ''/auth/signin''
             (toast \<lparr>toast_title = ''Authentication Required'',
                     toast_description = ''Please sign in to list your business.'',
                     toast_variant = Some ''destructive''\<rparr> s))
      | Some u \<Rightarrow>
          try_catch_finally (submit_body env u) submit_catch (setLoading False)
            (setLoading True s))"

text \<open>What happens to the screen, one event at a time.\<close>

datatype event =
  InputChange field string
| OptionChange string bool
| LogoChange "File list option"
| ProductImagesChange "File list option"
| AuthChange "User option"
| Submit

fun dispatch :: "env \<Rightarrow> event \<Rightarrow> ListBusiness \<Rightarrow> ListBusiness" where
  "dispatch env (InputChange fld v) s = handleInputChange fld v s"
| "dispatch env (OptionChange option checked) s = handleOptionChange option checked s"
| "dispatch env (LogoChange files) s = handleLogoChange files s"
| "dispatch env (ProductImagesChange files) s = handleProductImagesChange files s"
| "dispatch env (AuthChange u) s = s\<lparr>user := u\<rparr>"
| "dispatch env Submit s = snd (handleSubmit env s)"

definition run :: "env \<Rightarrow> event list \<Rightarrow> ListBusiness \<Rightarrow> ListBusiness" where
  "run env evs s = fold (dispatch env) evs s"

text \<open>The calls a submission adds to the log, and how to count them.\<close>

definition issued :: "env \<Rightarrow> ListBusiness \<Rightarrow> call list" where
  "issued env s = drop (length (calls s)) (calls (snd (handleSubmit env s)))"

fun uploads :: "call list \<Rightarrow> upload_request list" where
  "uploads [] = []"
| "uploads (Upload req # cs) = req # uploads cs"
| "uploads (Insert tbl row # cs) = uploads cs"

fun inserts :: "call list \<Rightarrow> insert_row list" where
  "inserts [] = []"
| "inserts (Upload req # cs) = inserts cs"
| "inserts (Insert tbl row # cs) = row # inserts cs"

section \<open>Auxiliary definitions\<close>

text \<open>
  The requests a submission plans to send and the answers the outside world gives to
  them, written as plain lists; \<open>finish\<close> is the state a submission ends in.
  These are used to describe \<open>handleSubmit\<close> in the proofs.
\<close>

fun product_requests :: "env \<Rightarrow> User \<Rightarrow> nat \<Rightarrow> nat \<Rightarrow> File list \<Rightarrow> upload_request list" where
  "product_requests env u index t [] = []"
| "product_requests env u index t (file # files) =
     \<lparr>bucket = ''business-assets'',
      path = ''products/'' @ user_id u @ ''/'' @ show_nat (clock env t) @ ''_'' @ show_nat index
               @ ''_'' @ file_name file,
      body = file, cacheControl = ''3600'', upsert = False\<rparr>
     # product_requests env u (Suc index) (Suc t) files"

fun answers :: "env \<Rightarrow> call list \<Rightarrow> upload_request list \<Rightarrow> (error + string) list" where
  "answers env hist [] = []"
| "answers env hist (req # reqs) =
     (case storage_upload env hist req of
        Inl err \<Rightarrow> Inl err
      | Inr data_path \<Rightarrow> Inr (getPublicUrl env (bucket req) data_path))
     # answers env (hist @ [Upload req]) reqs"

definition logo_requests :: "env \<Rightarrow> User \<Rightarrow> ListBusiness \<Rightarrow> upload_request list" where
  "logo_requests env u s =
     (case logoFile s of
        None \<Rightarrow> []
      | Some lf \<Rightarrow>
          [\<lparr>bucket = ''business-assets'',
            path = ''logos/'' @ user_id u @ ''/'' @ show_nat (clock env (ticks s)) @ ''_'' @ file_name lf,
            body = lf, cacheControl = ''3600'', upsert = False\<rparr>])"

definition log_calls :: "upload_request list \<Rightarrow> ListBusiness \<Rightarrow> ListBusiness" where
  "log_calls reqs s = s\<lparr>calls := calls s @ map Upload reqs, ticks := ticks s + length reqs\<rparr>"

definition finish :: "error option \<Rightarrow> call list \<Rightarrow> nat \<Rightarrow> ListBusiness \<Rightarrow> ListBusiness" where
  "finish r cs n s =
     s\<lparr>loading := False,
       calls := calls s @ cs,
       ticks := ticks s + n,
       console := console s @
         (case r of None \<Rightarrow> [] | Some e \<Rightarrow> [ConsoleError ''Error listing business:'' e]),
       toasts := toasts s @
         [case r of
            None \<Rightarrow>
              \<lparr>toast_title = ''Success!'',
               toast_description = ''Your business has been listed successfully.'',
               toast_variant = None\<rparr>
          | Some e \<Rightarrow>
              \<lparr>toast_title = ''Error'',
               toast_description = message_or e ''Failed to list business. Please try again.'',
               toast_variant = Some ''destructive''\<rparr>],
       navigations := navigations s @ (case r of None \<Rightarrow> [''/dashboard''] | Some e \<Rightarrow> [])\<rparr>"

definition product_reqs :: "env \<Rightarrow> User \<Rightarrow> ListBusiness \<Rightarrow> upload_request list" where
  "product_reqs env u s =
     product_requests env u 0 (ticks s + length (logo_requests env u s)) (productImages s)"

definition logo_answers :: "env \<Rightarrow> User \<Rightarrow> ListBusiness \<Rightarrow> (error + string) list" where
  "logo_answers env u s = answers env (calls s) (logo_requests env u s)"

definition product_answers :: "env \<Rightarrow> User \<Rightarrow> ListBusiness \<Rightarrow> (error + string) list" where
  "product_answers env u s =
     answers env (calls s @ map Upload (logo_requests env u s)) (product_reqs env u s)"

text \<open>
  Whether the box of an option is checked after a sequence of events, as the user
  sees it: the last change to that box decides, and a box never touched is unchecked.
\<close>

definition box_checked :: "event list \<Rightarrow> string \<Rightarrow> bool" where
  "box_checked evs opt =
     fold (\<lambda>ev b. case ev of OptionChange opt' c \<Rightarrow> (if opt' = opt then c else b) | _ \<Rightarrow> b)
       evs False"

text \<open>The cap on product images, as an invariant of the screen.\<close>

definition images_capped :: "ListBusiness \<Rightarrow> bool" where
  "images_capped s \<longleftrightarrow>
     length (productImages s) \<le> 3 \<and>
     list_all (\<lambda>row. case product_images row of None \<Rightarrow> True | Some imgs \<Rightarrow> length imgs \<le> 3)
       (inserts (calls s))"


section \<open>Example inputs\<close>

text \<open>
  A signed-in user, a draft with a logo and two product images, a backend that
  accepts everything and one whose storage rejects every upload.
\<close>

definition example_user :: User where
  "example_user = \<lparr>user_id = ''u1''\<rparr>"

definition example_logo :: File where
  "example_logo = \<lparr>file_name = ''logo.png'', file_body = ''L''\<rparr>"

definition example_images :: "File list" where
  "example_images =
     [\<lparr>file_name = ''a.png'', file_body = ''A''\<rparr>, \<lparr>file_name = ''b.png'', file_body = ''B''\<rparr>]"

definition example_env :: env where
  "example_env =
     \<lparr>storage_upload = (\<lambda>hist req. Inr (path req)),
      getPublicUrl = (\<lambda>bkt pth. ''https://cdn.test/'' @ bkt @ ''/'' @ pth),
      db_insert = (\<lambda>hist row. None),
      clock = (\<lambda>k. 170 + k),
      race = 0\<rparr>"

definition rejecting_env :: env where
  "rejecting_env =
     example_env\<lparr>storage_upload := (\<lambda>hist req. Inl (Error (Some ''The resource already exists'')))\<rparr>"

definition example_draft :: ListBusiness where
  "example_draft =
     (initial (Some example_user))\<lparr>logoFile := Some example_logo, productImages := example_images\<rparr>"

definition joes_cafe :: "event list" where
  "joes_cafe =
     [InputChange F_name ''Joes Cafe'', InputChange F_category ''Restaurant'',
      InputChange F_description ''Coffee shop'', InputChange F_phone ''555-1111'',
      InputChange F_address ''1 Main St'', InputChange F_city ''Springfield'',
      InputChange F_state ''IL'', InputChange F_zipCode ''62701'']"

definition four_files :: "File list" where
  "four_files =
     [\<lparr>file_name = ''1.png'', file_body = ''1''\<rparr>, \<lparr>file_name = ''2.png'', file_body = ''2''\<rparr>,
      \<lparr>file_name = ''3.png'', file_body = ''3''\<rparr>, \<lparr>file_name = ''4.png'', file_body = ''4''\<rparr>]"

definition example_clicks :: "event list" where
  "example_clicks =
     [OptionChange ''Cash on Delivery'' True, OptionChange ''Pickup In-Store'' True,
      OptionChange ''Cash on Delivery'' False]"

text \<open>
  Two more backends: one whose table rejects the insert with an error that has no
  message, one whose storage rejects the file \<open>b.png\<close>.
\<close>

definition insert_rejecting_env :: env where
  "insert_rejecting_env = example_env\<lparr>db_insert := (\<lambda>hist row. Some (Error None))\<rparr>"

definition image_rejecting_env :: env where
  "image_rejecting_env =
     example_env\<lparr>storage_upload :=
       (\<lambda>hist req. if file_name (body req) = ''b.png'' then Inl (Error (Some ''too large''))
                    else Inr (path req))\<rparr>"

section \<open>Properties of the gallery\<close>


lemma upt_5: "[0..<5] = [0, 1, 2, 3, 4]"
  by (simp add: upt_rec)

text \<open>
  How many stars each of the two components fills: the gallery rounds the rating up,
  \<open>BusinessCard\<close> rounds it down (both within 0 to 5).
\<close>

lemma count_below: "length (filter (\<lambda>i. int i < c) [0..<n]) = nat (min (int n) (max 0 c))"
  by (induction n) auto

lemma renderStars_filled: "filled (renderStars r) = nat (min 5 (max 0 \<lceil>r\<rceil>))"
proof -
  have "filled (renderStars r) = length (filter (\<lambda>i. int i < \<lceil>r\<rceil>) [0..<5])"
    by (simp add: filled_def renderStars_def filter_map comp_def less_ceiling_iff)
  then show ?thesis by (simp add: count_below)
qed

lemma BusinessCard_renderStars_filled:
  "filled (BusinessCard_renderStars r) = nat (min 5 (max 0 \<lfloor>r\<rfloor>))"
proof -
  have "filled (BusinessCard_renderStars r) = length (filter (\<lambda>i. int i < \<lfloor>r\<rfloor>) [0..<5])"
    by (simp add: filled_def BusinessCard_renderStars_def filter_map comp_def)
  then show ?thesis by (simp add: count_below)
qed

text \<open>
  C1. Claim: the number of filled stars of a gallery card is the floor of the
  rating, so that rating 3.7 shows 3 filled stars and 2 unfilled. The gallery
  compares each position with the rating itself: at 3.7 positions 0 to 3 are
  filled, which is 4 stars and 1 unfilled, while \<open>BusinessCard\<close> shows 3.
\<close>

theorem renderStars_at_3_7:
  "filled (card_stars (render_card (b\<lparr>rating := 37 / 10\<rparr>))) = 4
   \<and> length (card_stars (render_card (b\<lparr>rating := 37 / 10\<rparr>))) = 5
   \<and> nat \<lfloor>37 / 10 :: rat\<rfloor> = 3
   \<and> filled (BusinessCard_renderStars (37 / 10)) = 3"
proof -
  have fl: "\<lfloor>37 / 10 :: rat\<rfloor> = 3"
    by (simp add: floor_eq_iff)
  show ?thesis
    by (simp add: fl render_card_def renderStars_def BusinessCard_renderStars_def filled_def upt_5)
qed


text \<open>
  C7. The fetch of the gallery ends in an error \<open>e\<close>, either as a rejected call or
  as the \<open>error\<close> field of the result. Then \<open>fetchBusinesses\<close> returns normally,
  the list of businesses is what it was, the loading flag is cleared, \<open>e\<close> is
  written to the console, and what is rendered is the cards of the unchanged list
  (no error view exists): on first load, no card at all.
\<close>

theorem fetchBusinesses_error:
  assumes "outcome = Rejected e \<or> outcome = Resolved d (Some e)"
  shows "fst (fetchBusinesses outcome g) = Inr ()
     \<and> businesses (snd (fetchBusinesses outcome g)) = businesses g
     \<and> gallery_loading (snd (fetchBusinesses outcome g)) = False
     \<and> (\<exists>label. gallery_console (snd (fetchBusinesses outcome g))
                   = gallery_console g @ [ConsoleError label e])
     \<and> render (snd (fetchBusinesses outcome g)) = CardsView (map render_card (businesses g))
     \<and> render (snd (fetchBusinesses outcome gallery_initial)) = CardsView []"
  using assms
  by (auto simp: fetchBusinesses_def fetch_body_def try_catch_finally_def render_def
        gallery_initial_def)

text \<open>C7 on first load, for a rejected call and for an error result.\<close>

theorem fetchBusinesses_error_witness:
  "fetchBusinesses (Rejected (Error (Some ''network''))) gallery_initial =
     (Inr (), \<lparr>businesses = [], gallery_loading = False,
               gallery_console = [ConsoleError ''Error:'' (Error (Some ''network''))]\<rparr>)
   \<and> render (snd (fetchBusinesses (Resolved None (Some (Error None))) gallery_initial))
       = CardsView []"
  using fetchBusinesses_error[of "Rejected (Error (Some ''network''))" "Error (Some ''network'')" None gallery_initial]
    fetchBusinesses_error[of "Resolved None (Some (Error None))" "Error None" None gallery_initial]
  by (simp add: fetchBusinesses_def fetch_body_def try_catch_finally_def gallery_initial_def)

section \<open>The shape of a submission\<close>

lemma uploadPromises_eq:
  "uploadPromises env u i files s =
     (answers env (calls s) (product_requests env u i (ticks s) files),
      s\<lparr>calls := calls s @ map Upload (product_requests env u i (ticks s) files),
        ticks := ticks s + length files\<rparr>)"
proof (induction files arbitrary: i s)
  case Nil
  show ?case by simp
next
  case (Cons f fs)
  show ?case
    by (simp add: Cons.IH Date_now_def uploadFile_def Let_def split: sum.splits)
qed

lemma length_product_requests [simp]: "length (product_requests env u i t files) = length files"
  by (induction files arbitrary: i t) auto

lemma length_answers [simp]: "length (answers env hist reqs) = length reqs"
  by (induction reqs arbitrary: hist) auto

lemma length_fulfilled: "rejections rs = [] \<Longrightarrow> length (fulfilled rs) = length rs"
  by (induction rs rule: rejections.induct) auto

lemma Promise_all_Inr: "Promise_all k rs = Inr vs \<Longrightarrow> length vs = length rs"
  by (auto simp: Promise_all_def length_fulfilled split: list.splits)

lemma set_rejections: "set (rejections rs) = {e. Inl e \<in> set rs}"
  by (induction rs rule: rejections.induct) auto

lemma Promise_all_Inl: "Promise_all k rs = Inl e \<Longrightarrow> Inl e \<in> set rs"
proof -
  assume a: "Promise_all k rs = Inl e"
  then obtain x xs where r: "rejections rs = x # xs" and e: "e = (x # xs) ! (k mod length (x # xs))"
    by (auto simp: Promise_all_def split: list.splits)
  have "k mod length (x # xs) < length (x # xs)" by simp
  then have "e \<in> set (x # xs)" unfolding e by (rule nth_mem)
  then show ?thesis using r set_rejections[of rs] by auto
qed

lemma uploads_append [simp]: "uploads (xs @ ys) = uploads xs @ uploads ys"
  by (induction xs rule: uploads.induct) auto

lemma inserts_append [simp]: "inserts (xs @ ys) = inserts xs @ inserts ys"
  by (induction xs rule: inserts.induct) auto

lemma uploads_map_Upload [simp]: "uploads (map Upload rs) = rs"
  by (induction rs) auto

lemma inserts_map_Upload [simp]: "inserts (map Upload rs) = []"
  by (induction rs) auto

lemma log_calls_fields [simp]:
  "calls (log_calls reqs s) = calls s @ map Upload reqs"
  "ticks (log_calls reqs s) = ticks s + length reqs"
  "user (log_calls reqs s) = user s"
  "loading (log_calls reqs s) = loading s"
  "logoFile (log_calls reqs s) = logoFile s"
  "productImages (log_calls reqs s) = productImages s"
  "formData (log_calls reqs s) = formData s"
  "toasts (log_calls reqs s) = toasts s"
  "navigations (log_calls reqs s) = navigations s"
  "console (log_calls reqs s) = console s"
  by (simp_all add: log_calls_def)

lemma log_calls_Nil [simp]: "log_calls [] s = s"
  by (simp add: log_calls_def)

lemma log_calls_log_calls [simp]: "log_calls ys (log_calls xs s) = log_calls (xs @ ys) s"
  by (simp add: log_calls_def)

lemma finish_fields [simp]:
  "calls (finish r cs n s) = calls s @ cs"
  "ticks (finish r cs n s) = ticks s + n"
  "user (finish r cs n s) = user s"
  "loading (finish r cs n s) = False"
  "logoFile (finish r cs n s) = logoFile s"
  "productImages (finish r cs n s) = productImages s"
  "formData (finish r cs n s) = formData s"
  "console (finish r cs n s) = console s @
     (case r of None \<Rightarrow> [] | Some e \<Rightarrow> [ConsoleError ''Error listing business:'' e])"
  "navigations (finish r cs n s) = navigations s @ (case r of None \<Rightarrow> [''/dashboard''] | Some e \<Rightarrow> [])"
  by (simp_all add: finish_def)

lemma finish_toasts_failure [simp]:
  "toasts (finish (Some e) cs n s) = toasts s @
     [\<lparr>toast_title = ''Error'',
       toast_description = message_or e ''Failed to list business. Please try again.'',
       toast_variant = Some ''destructive''\<rparr>]"
  by (simp add: finish_def)

lemma finish_toasts_success [simp]:
  "toasts (finish None cs n s) = toasts s @
     [\<lparr>toast_title = ''Success!'',
       toast_description = ''Your business has been listed successfully.'',
       toast_variant = None\<rparr>]"
  by (simp add: finish_def)

lemma setLoading_fields [simp]:
  "calls (setLoading b s) = calls s"
  "ticks (setLoading b s) = ticks s"
  "user (setLoading b s) = user s"
  "loading (setLoading b s) = b"
  "logoFile (setLoading b s) = logoFile s"
  "productImages (setLoading b s) = productImages s"
  "formData (setLoading b s) = formData s"
  "toasts (setLoading b s) = toasts s"
  "navigations (setLoading b s) = navigations s"
  "console (setLoading b s) = console s"
  by (simp_all add: setLoading_def)

lemma Promise_all_rejected: "rejections rs \<noteq> [] \<Longrightarrow> \<exists>e. Promise_all k rs = Inl e \<and> Inl e \<in> set rs"
proof -
  assume "rejections rs \<noteq> []"
  then obtain e where e: "Promise_all k rs = Inl e"
    by (cases "rejections rs") (auto simp: Promise_all_def)
  from e have "Inl e \<in> set rs" by (rule Promise_all_Inl)
  with e show ?thesis by simp
qed

lemma Promise_all_fulfilled: "rejections rs = [] \<Longrightarrow> Promise_all k rs = Inr (fulfilled rs)"
  by (simp add: Promise_all_def)

lemma upload_products_eq:
  "upload_products env u s =
     (Promise_all (race env) (answers env (calls s) (product_requests env u 0 (ticks s) (productImages s))),
      log_calls (product_requests env u 0 (ticks s) (productImages s)) s)"
proof (cases "productImages s")
  case Nil
  then show ?thesis by (simp add: upload_products_def Promise_all_def)
next
  case (Cons f fs)
  then show ?thesis by (simp add: upload_products_def uploadPromises_eq log_calls_def)
qed

lemma upload_logo_eq:
  "upload_logo env u s =
     (case answers env (calls s) (logo_requests env u s) of [] \<Rightarrow> Inr [] | r # rs \<Rightarrow> r,
      log_calls (logo_requests env u s) s)"
  by (simp add: upload_logo_def logo_requests_def Date_now_def uploadFile_def log_calls_def Let_def
        split: option.splits sum.splits)

lemma length_logo_requests: "length (logo_requests env u s) \<le> 1"
  by (simp add: logo_requests_def split: option.splits)

lemma single_answer:
  "length rs \<le> 1 \<Longrightarrow>
   (case rs of [] \<Rightarrow> Inr [] | r # rs' \<Rightarrow> r) =
     (case rejections rs of [] \<Rightarrow> Inr (concat (fulfilled rs)) | e # es \<Rightarrow> Inl e)"
  by (cases rs rule: rejections.cases) auto

lemma upload_logo_cases:
  "upload_logo env u s =
     (case rejections (logo_answers env u s) of
        [] \<Rightarrow> Inr (concat (fulfilled (logo_answers env u s)))
      | e # es \<Rightarrow> Inl e,
      log_calls (logo_requests env u s) s)"
  unfolding logo_answers_def upload_logo_eq
  using single_answer[of "answers env (calls s) (logo_requests env u s)"] length_logo_requests[of env u s]
  by simp

lemma upload_products_after_logo:
  "upload_products env u (log_calls (logo_requests env u s) s) =
     (Promise_all (race env) (product_answers env u s),
      log_calls (logo_requests env u s @ product_reqs env u s) s)"
  by (simp add: upload_products_eq product_answers_def product_reqs_def)

lemma set_rejections_sub: "e \<in> set (rejections rs) \<Longrightarrow> Inl e \<in> set rs"
  by (simp add: set_rejections)

lemma submit_body_logo_rejected:
  assumes "rejections (logo_answers env u s) \<noteq> []"
  shows "\<exists>e. Inl e \<in> set (logo_answers env u s)
           \<and> submit_body env u s = (Inl e, log_calls (logo_requests env u s) s)"
proof -
  from assms obtain e es where r: "rejections (logo_answers env u s) = e # es"
    by (cases "rejections (logo_answers env u s)") auto
  then have "e \<in> set (rejections (logo_answers env u s))" by simp
  then have "Inl e \<in> set (logo_answers env u s)" by (rule set_rejections_sub)
  moreover have "submit_body env u s = (Inl e, log_calls (logo_requests env u s) s)"
    by (simp add: submit_body_def upload_logo_cases r)
  ultimately show ?thesis by blast
qed

lemma submit_body_products_rejected:
  assumes "rejections (logo_answers env u s) = []" and "rejections (product_answers env u s) \<noteq> []"
  shows "\<exists>e. Inl e \<in> set (product_answers env u s)
           \<and> submit_body env u s =
               (Inl e, log_calls (logo_requests env u s @ product_reqs env u s) s)"
proof -
  from Promise_all_rejected[OF assms(2), of "race env"] obtain e where
    e: "Promise_all (race env) (product_answers env u s) = Inl e"
       "Inl e \<in> set (product_answers env u s)" by blast
  have "submit_body env u s = (Inl e, log_calls (logo_requests env u s @ product_reqs env u s) s)"
    by (simp add: submit_body_def upload_logo_cases assms(1) upload_products_after_logo e(1))
  with e(2) show ?thesis by blast
qed

lemma submit_body_inserting:
  assumes "rejections (logo_answers env u s) = []" and "rejections (product_answers env u s) = []"
  shows "submit_body env u s =
           insert_business env u (concat (fulfilled (logo_answers env u s)))
             (fulfilled (product_answers env u s))
             (log_calls (logo_requests env u s @ product_reqs env u s) s)"
  by (simp add: submit_body_def upload_logo_cases assms upload_products_after_logo
        Promise_all_fulfilled)

lemma setLoading_logo_requests [simp]:
  "logo_requests env u (setLoading b s) = logo_requests env u s"
  by (simp add: logo_requests_def split: option.splits)

lemma setLoading_requests [simp]:
  "product_reqs env u (setLoading b s) = product_reqs env u s"
  "logo_answers env u (setLoading b s) = logo_answers env u s"
  "product_answers env u (setLoading b s) = product_answers env u s"
  by (simp_all add: product_reqs_def logo_answers_def product_answers_def)

lemma catch_finally_failure:
  "setLoading False (snd (submit_catch e (log_calls reqs (setLoading True s))))
     = finish (Some e) (map Upload reqs) (length reqs) s"
  by (simp add: submit_catch_def toast_def console_error_def setLoading_def log_calls_def finish_def)

lemma handleSubmit_logo_rejected:
  assumes "user s = Some u" and "rejections (logo_answers env u s) \<noteq> []"
  shows "\<exists>e. Inl e \<in> set (logo_answers env u s)
           \<and> fst (submit_body env u (setLoading True s)) = Inl e
           \<and> handleSubmit env s =
               (Inr (), finish (Some e) (map Upload (logo_requests env u s))
                          (length (logo_requests env u s)) s)"
proof -
  from submit_body_logo_rejected[of env u "setLoading True s"] assms(2)
  obtain e where e: "Inl e \<in> set (logo_answers env u s)"
    "submit_body env u (setLoading True s) =
       (Inl e, log_calls (logo_requests env u s) (setLoading True s))"
    by auto
  have "handleSubmit env s =
      (Inr (), finish (Some e) (map Upload (logo_requests env u s)) (length (logo_requests env u s)) s)"
    using catch_finally_failure[of e "logo_requests env u s" s]
    by (simp add: handleSubmit_def assms(1) try_catch_finally_def e(2) submit_catch_def)
  with e show ?thesis by auto
qed

lemma handleSubmit_products_rejected:
  assumes "user s = Some u" and "rejections (logo_answers env u s) = []"
    and "rejections (product_answers env u s) \<noteq> []"
  shows "\<exists>e. Inl e \<in> set (product_answers env u s)
           \<and> fst (submit_body env u (setLoading True s)) = Inl e
           \<and> handleSubmit env s =
               (Inr (), finish (Some e) (map Upload (logo_requests env u s @ product_reqs env u s))
                          (length (logo_requests env u s @ product_reqs env u s)) s)"
proof -
  from submit_body_products_rejected[of env u "setLoading True s"] assms(2,3)
  obtain e where e: "Inl e \<in> set (product_answers env u s)"
    "submit_body env u (setLoading True s) =
       (Inl e, log_calls (logo_requests env u s @ product_reqs env u s) (setLoading True s))"
    by auto
  have "handleSubmit env s =
      (Inr (), finish (Some e) (map Upload (logo_requests env u s @ product_reqs env u s))
                 (length (logo_requests env u s @ product_reqs env u s)) s)"
    using catch_finally_failure[of e "logo_requests env u s @ product_reqs env u s" s]
    by (simp add: handleSubmit_def assms(1) try_catch_finally_def e(2) submit_catch_def)
  with e show ?thesis by auto
qed

lemma handleSubmit_inserting:
  assumes "user s = Some u" and "rejections (logo_answers env u s) = []"
    and "rejections (product_answers env u s) = []"
  shows "handleSubmit env s =
           (Inr (),
            finish (db_insert env (calls s @ map Upload (logo_requests env u s @ product_reqs env u s))
                      (insert_payload u (formData s) (concat (fulfilled (logo_answers env u s)))
                         (fulfilled (product_answers env u s))))
              (map Upload (logo_requests env u s @ product_reqs env u s) @
                 [Insert ''businesses''
                    (insert_payload u (formData s) (concat (fulfilled (logo_answers env u s)))
                       (fulfilled (product_answers env u s)))])
              (length (logo_requests env u s @ product_reqs env u s)) s)
         \<and> fst (submit_body env u (setLoading True s)) =
             (case db_insert env (calls s @ map Upload (logo_requests env u s @ product_reqs env u s))
                      (insert_payload u (formData s) (concat (fulfilled (logo_answers env u s)))
                         (fulfilled (product_answers env u s))) of
                None \<Rightarrow> Inr () | Some e \<Rightarrow> Inl e)"
proof -
  have b: "submit_body env u (setLoading True s) =
           insert_business env u (concat (fulfilled (logo_answers env u s)))
             (fulfilled (product_answers env u s))
             (log_calls (logo_requests env u s @ product_reqs env u s) (setLoading True s))"
    using submit_body_inserting[of env u "setLoading True s"] assms(2,3) by simp
  have h: "handleSubmit env s =
      try_catch_finally (\<lambda>s'. insert_business env u (concat (fulfilled (logo_answers env u s)))
             (fulfilled (product_answers env u s))
             (log_calls (logo_requests env u s @ product_reqs env u s) (setLoading True s)))
         submit_catch (setLoading False) (setLoading True s)"
    by (simp add: handleSubmit_def assms(1) try_catch_finally_def b)
  show ?thesis
  proof (cases "db_insert env (calls s @ map Upload (logo_requests env u s @ product_reqs env u s))
                      (insert_payload u (formData s) (concat (fulfilled (logo_answers env u s)))
                         (fulfilled (product_answers env u s)))")
    case None
    then show ?thesis unfolding h b
      by (simp add: try_catch_finally_def insert_business_def Let_def
            toast_def navigate_def setLoading_def log_calls_def finish_def)
  next
    case (Some err)
    then show ?thesis unfolding h b
      by (simp add: try_catch_finally_def insert_business_def Let_def
            submit_catch_def toast_def console_error_def setLoading_def log_calls_def finish_def)
  qed
qed

lemma issued_finish:
  "handleSubmit env s = (r, finish x cs n s) \<Longrightarrow> issued env s = cs"
  by (simp add: issued_def)

lemma answers_nth:
  "k < length reqs \<Longrightarrow>
   answers env hist reqs ! k =
     (case storage_upload env (hist @ map Upload (take k reqs)) (reqs ! k) of
        Inl err \<Rightarrow> Inl err
      | Inr data_path \<Rightarrow> Inr (getPublicUrl env (bucket (reqs ! k)) data_path))"
proof (induction reqs arbitrary: hist k)
  case Nil
  then show ?case by simp
next
  case (Cons r rs)
  show ?case
  proof (cases k)
    case 0
    then show ?thesis by (simp split: sum.splits)
  next
    case (Suc j)
    with Cons.prems have "j < length rs" by simp
    from Cons.IH[OF this, of "hist @ [Upload r]"] Suc show ?thesis by (simp split: sum.splits)
  qed
qed


lemma rejected_answers:
  assumes "k < length reqs" and "storage_upload env (hist @ map Upload (take k reqs)) (reqs ! k) = Inl e"
  shows "rejections (answers env hist reqs) \<noteq> []"
proof -
  from assms answers_nth[of k reqs env hist] have "answers env hist reqs ! k = Inl e" by simp
  with assms(1) have "Inl e \<in> set (answers env hist reqs)"
    by (metis length_answers nth_mem)
  then have "e \<in> set (rejections (answers env hist reqs))" by (simp add: set_rejections)
  then show ?thesis by auto
qed

lemma product_requests_nth:
  "i < length files \<Longrightarrow>
   product_requests env u index t files ! i =
     \<lparr>bucket = ''business-assets'',
      path = ''products/'' @ user_id u @ ''/'' @ show_nat (clock env (t + i)) @ ''_''
               @ show_nat (index + i) @ ''_'' @ file_name (files ! i),
      body = files ! i, cacheControl = ''3600'', upsert = False\<rparr>"
proof (induction files arbitrary: index t i)
  case Nil
  then show ?case by simp
next
  case (Cons f fs)
  show ?case
  proof (cases i)
    case 0
    then show ?thesis by simp
  next
    case (Suc j)
    with Cons.prems have "j < length fs" by simp
    from Cons.IH[OF this, of "Suc index" "Suc t"] Suc show ?thesis by simp
  qed
qed

lemma map_body_product_requests [simp]: "map body (product_requests env u index t files) = files"
  by (induction files arbitrary: index t) auto

lemma submission_summary:
  assumes "user s = Some u"
  obtains
    (logo_failed) e where
      "Inl e \<in> set (logo_answers env u s)"
      "fst (submit_body env u (setLoading True s)) = Inl e"
      "handleSubmit env s =
         (Inr (), finish (Some e) (map Upload (logo_requests env u s))
                    (length (logo_requests env u s)) s)"
  | (products_failed) e where
      "rejections (logo_answers env u s) = []"
      "Inl e \<in> set (product_answers env u s)"
      "fst (submit_body env u (setLoading True s)) = Inl e"
      "handleSubmit env s =
         (Inr (), finish (Some e) (map Upload (logo_requests env u s @ product_reqs env u s))
                    (length (logo_requests env u s @ product_reqs env u s)) s)"
  | (inserted)
      "rejections (logo_answers env u s) = []"
      "rejections (product_answers env u s) = []"
      "handleSubmit env s =
           (Inr (),
            finish (db_insert env (calls s @ map Upload (logo_requests env u s @ product_reqs env u s))
                      (insert_payload u (formData s) (concat (fulfilled (logo_answers env u s)))
                         (fulfilled (product_answers env u s))))
              (map Upload (logo_requests env u s @ product_reqs env u s) @
                 [Insert ''businesses''
                    (insert_payload u (formData s) (concat (fulfilled (logo_answers env u s)))
                       (fulfilled (product_answers env u s)))])
              (length (logo_requests env u s @ product_reqs env u s)) s)"
      "fst (submit_body env u (setLoading True s)) =
             (case db_insert env (calls s @ map Upload (logo_requests env u s @ product_reqs env u s))
                      (insert_payload u (formData s) (concat (fulfilled (logo_answers env u s)))
                         (fulfilled (product_answers env u s))) of
                None \<Rightarrow> Inr () | Some e \<Rightarrow> Inl e)"
proof (cases "rejections (logo_answers env u s) = []")
  case False
  from handleSubmit_logo_rejected[OF assms False] logo_failed show ?thesis by blast
next
  case l: True
  show ?thesis
  proof (cases "rejections (product_answers env u s) = []")
    case False
    from handleSubmit_products_rejected[OF assms l False] products_failed l show ?thesis by blast
  next
    case True
    from handleSubmit_inserting[OF assms l True] inserted l True show ?thesis by blast
  qed
qed

section \<open>Lemmas for the submission screen\<close>

lemma logo_requests_Some:
  "logoFile s = Some lf \<Longrightarrow>
   logo_requests env u s =
     [\<lparr>bucket = ''business-assets'',
       path = ''logos/'' @ user_id u @ ''/'' @ show_nat (clock env (ticks s)) @ ''_'' @ file_name lf,
       body = lf, cacheControl = ''3600'', upsert = False\<rparr>]"
  by (simp add: logo_requests_def)

lemma logo_requests_None: "logoFile s = None \<Longrightarrow> logo_requests env u s = []"
  by (simp add: logo_requests_def)

lemma length_product_reqs [simp]: "length (product_reqs env u s) = length (productImages s)"
  by (simp add: product_reqs_def)

lemma length_product_answers [simp]: "length (product_answers env u s) = length (productImages s)"
  by (simp add: product_answers_def)

lemma logo_answers_Some:
  "logoFile s = Some lf \<Longrightarrow>
   logo_answers env u s =
     [case storage_upload env (calls s) (hd (logo_requests env u s)) of
        Inl err \<Rightarrow> Inl err
      | Inr data_path \<Rightarrow> Inr (getPublicUrl env ''business-assets'' data_path)]"
  by (simp add: logo_answers_def logo_requests_Some split: sum.splits)


lemmas example_defs =
  example_user_def example_logo_def example_images_def example_env_def rejecting_env_def
  example_draft_def initial_def initial_formData_def

lemma example_issued:
  "issued example_env (initial (Some example_user)) =
     [Insert ''businesses'' (insert_payload example_user initial_formData [] [])]"
  by (simp add: issued_def handleSubmit_def try_catch_finally_def submit_body_def upload_logo_def
        upload_products_def insert_business_def Let_def toast_def navigate_def setLoading_def
        example_env_def example_user_def initial_def)

lemma issued_unauthenticated: "user s = None \<Longrightarrow> issued env s = []"
  by (simp add: issued_def handleSubmit_def toast_def navigate_def)

lemma issued_inserts:
  assumes "user s = Some u" and "row \<in> set (inserts (issued env s))"
  shows "\<exists>logoUrl imageUrls. row = insert_payload u (formData s) logoUrl imageUrls
            \<and> length imageUrls = length (productImages s)"
  using assms(1)
proof (cases rule: submission_summary[where env = env])
  case (logo_failed e)
  from issued_finish[OF logo_failed(3)] assms(2) show ?thesis by simp
next
  case (products_failed e)
  from issued_finish[OF products_failed(4)] assms(2) show ?thesis by simp
next
  case inserted
  from inserted(2) have "length (fulfilled (product_answers env u s)) = length (productImages s)"
    by (simp add: length_fulfilled)
  with issued_finish[OF inserted(3)] assms(2) show ?thesis by auto
qed

lemma handleSubmit_state:
  "calls (snd (handleSubmit env s)) = calls s @ issued env s
   \<and> formData (snd (handleSubmit env s)) = formData s
   \<and> productImages (snd (handleSubmit env s)) = productImages s"
proof (cases "user s")
  case None
  then show ?thesis by (simp add: issued_def handleSubmit_def toast_def navigate_def)
next
  case (Some u)
  then show ?thesis
  proof (cases rule: submission_summary[where env = env])
    case (logo_failed e)
    from issued_finish[OF logo_failed(3)] show ?thesis by (simp add: logo_failed(3))
  next
    case (products_failed e)
    from issued_finish[OF products_failed(4)] show ?thesis by (simp add: products_failed(4))
  next
    case inserted
    from issued_finish[OF inserted(3)] show ?thesis by (simp add: inserted(3))
  qed
qed

lemma options_set_field [simp]: "options (set_field fld v fd) = options fd"
  by (cases fld) simp_all

lemma options_dispatch:
  "options (formData (dispatch env ev s)) =
     (case ev of
        OptionChange opt c \<Rightarrow>
          (if c then options (formData s) @ [opt]
           else filter (\<lambda>opt'. opt' \<noteq> opt) (options (formData s)))
      | _ \<Rightarrow> options (formData s))"
  by (cases ev)
     (simp_all add: handleInputChange_def handleOptionChange_def option_update_def
        handleLogoChange_def handleProductImagesChange_def handleSubmit_state
        split: option.splits list.splits)

lemma options_run:
  "opt \<in> set (options (formData (run env evs s))) \<longleftrightarrow>
     fold (\<lambda>ev b. case ev of OptionChange opt' c \<Rightarrow> (if opt' = opt then c else b) | _ \<Rightarrow> b)
       evs (opt \<in> set (options (formData s)))"
proof (induction evs arbitrary: s)
  case Nil
  show ?case by (simp add: run_def)
next
  case (Cons ev evs)
  have step: "(opt \<in> set (options (formData (dispatch env ev s)))) =
      (case ev of OptionChange opt' c \<Rightarrow> (if opt' = opt then c else opt \<in> set (options (formData s)))
       | _ \<Rightarrow> opt \<in> set (options (formData s)))"
    unfolding options_dispatch by (cases ev) auto
  from Cons.IH[of "dispatch env ev s"] show ?case
    by (simp add: run_def step)
qed

lemma options_initial: "opt \<in> set (options (formData (run env evs (initial u0)))) \<longleftrightarrow> box_checked evs opt"
  using options_run[of opt env evs "initial u0"]
  by (simp add: box_checked_def initial_def initial_formData_def)

lemma issued_capped:
  assumes "length (productImages s) \<le> 3" and "row \<in> set (inserts (issued env s))"
  shows "case product_images row of None \<Rightarrow> True | Some imgs \<Rightarrow> length imgs \<le> 3"
proof (cases "user s")
  case None
  with assms(2) show ?thesis by (simp add: issued_unauthenticated)
next
  case (Some u)
  from issued_inserts[OF Some assms(2)] assms(1) show ?thesis
    by (auto simp: insert_payload_def)
qed

lemma dispatch_capped:
  assumes "images_capped s"
  shows "images_capped (dispatch env ev s)"
proof (cases ev)
  case Submit
  have "list_all (\<lambda>row. case product_images row of None \<Rightarrow> True | Some imgs \<Rightarrow> length imgs \<le> 3)
          (inserts (issued env s))"
    unfolding list_all_iff using issued_capped[of s _ env] assms by (simp add: images_capped_def)
  with assms show ?thesis
    by (simp add: Submit images_capped_def handleSubmit_state)
next
  case (ProductImagesChange files)
  with assms show ?thesis
    by (simp add: images_capped_def handleProductImagesChange_def split: option.splits)
next
  case (LogoChange files)
  with assms show ?thesis
    by (simp add: images_capped_def handleLogoChange_def split: option.splits list.splits)
next
  case (InputChange fld v)
  with assms show ?thesis by (simp add: images_capped_def handleInputChange_def)
next
  case (OptionChange opt c)
  with assms show ?thesis by (simp add: images_capped_def handleOptionChange_def)
next
  case (AuthChange u)
  with assms show ?thesis by (simp add: images_capped_def)
qed

lemma run_capped: "images_capped s \<Longrightarrow> images_capped (run env evs s)"
proof (induction evs arbitrary: s)
  case Nil
  then show ?case by (simp add: run_def)
next
  case (Cons ev evs)
  from Cons.IH[OF dispatch_capped[OF Cons.prems, of env ev]] show ?case by (simp add: run_def)
qed

lemma initial_capped: "images_capped (initial u0)"
  by (simp add: images_capped_def initial_def)

lemmas eval_defs =
  run_def handleInputChange_def handleOptionChange_def option_update_def handleLogoChange_def
  handleProductImagesChange_def handleSubmit_def try_catch_finally_def submit_body_def
  submit_catch_def upload_logo_def upload_products_def insert_business_def uploadFile_def
  Date_now_def Promise_all_def toast_def navigate_def console_error_def setLoading_def Let_def
  insert_payload_def or_null_def message_or_def issued_def

lemma optional_fields:
  assumes "user s = Some u" and "row \<in> set (inserts (issued env s))"
  shows "row_website row = Some (website (formData s))
     \<and> facebook_page row = or_null (facebookPage (formData s))
     \<and> tiktok_url row = or_null (tiktokUrl (formData s))
     \<and> starting_price row = or_null (startingPrice (formData s))
     \<and> products_catalog row = or_null (productsCatalog (formData s))
     \<and> license_expired_date row = or_null (licenseExpiredDate (formData s))"
  using issued_inserts[OF assms] by (auto simp: insert_payload_def)

lemma planned_nth:
  assumes "k < length (logo_requests env u s @ product_reqs env u s)"
  shows "(logo_requests env u s @ product_reqs env u s) ! k =
     (case logoFile s of
        Some lf \<Rightarrow>
          (if k = 0
           then \<lparr>bucket = ''business-assets'',
                 path = ''logos/'' @ user_id u @ ''/'' @ show_nat (clock env (ticks s)) @ ''_''
                          @ file_name lf,
                 body = lf, cacheControl = ''3600'', upsert = False\<rparr>
           else \<lparr>bucket = ''business-assets'',
                 path = ''products/'' @ user_id u @ ''/'' @ show_nat (clock env (ticks s + k)) @ ''_''
                          @ show_nat (k - 1) @ ''_'' @ file_name (productImages s ! (k - 1)),
                 body = productImages s ! (k - 1), cacheControl = ''3600'', upsert = False\<rparr>)
      | None \<Rightarrow>
          \<lparr>bucket = ''business-assets'',
            path = ''products/'' @ user_id u @ ''/'' @ show_nat (clock env (ticks s + k)) @ ''_''
                     @ show_nat k @ ''_'' @ file_name (productImages s ! k),
            body = productImages s ! k, cacheControl = ''3600'', upsert = False\<rparr>)"
proof (cases "logoFile s")
  case None
  with assms have "k < length (productImages s)" by (simp add: logo_requests_None)
  then show ?thesis
    by (simp add: None logo_requests_None product_reqs_def product_requests_nth)
next
  case (Some lf)
  show ?thesis
  proof (cases k)
    case 0
    then show ?thesis by (simp add: Some logo_requests_Some)
  next
    case (Suc j)
    with assms have "j < length (productImages s)" by (simp add: logo_requests_Some[OF Some])
    then show ?thesis
      by (simp add: Some Suc logo_requests_Some[OF Some] product_reqs_def product_requests_nth)
  qed
qed

lemma upload_at:
  assumes "cs = map Upload xs @ ys" and "k < length xs" and "cs ! k = Upload r"
  shows "r = xs ! k \<and> take k cs = map Upload (take k xs)"
  using assms by (simp add: nth_append take_map)

lemma issued_upload:
  assumes "user s = Some u" and "k < length (issued env s)" and "issued env s ! k = Upload req"
  shows "k < length (logo_requests env u s @ product_reqs env u s)
       \<and> req = (logo_requests env u s @ product_reqs env u s) ! k
       \<and> take k (issued env s) = map Upload (take k (logo_requests env u s @ product_reqs env u s))"
  using assms(1)
proof (cases rule: submission_summary[where env = env])
  case (logo_failed e)
  from issued_finish[OF logo_failed(3)]
  have i: "issued env s = map Upload (logo_requests env u s) @ []" by simp
  from assms(2) i have k: "k < length (logo_requests env u s)" by simp
  from upload_at[OF i k assms(3)] k show ?thesis by (simp add: nth_append)
next
  case (products_failed e)
  from issued_finish[OF products_failed(4)]
  have i: "issued env s = map Upload (logo_requests env u s @ product_reqs env u s) @ []" by simp
  from assms(2) i have k: "k < length (logo_requests env u s @ product_reqs env u s)" by simp
  from upload_at[OF i k assms(3)] k show ?thesis by blast
next
  case inserted
  note i = issued_finish[OF inserted(3)]
  have k: "k < length (logo_requests env u s @ product_reqs env u s)"
  proof (rule ccontr)
    assume "\<not> k < length (logo_requests env u s @ product_reqs env u s)"
    with assms(2) i have "k = length (map Upload (logo_requests env u s @ product_reqs env u s))" by simp
    with assms(3) i show False by (simp only: nth_append_length) simp
  qed
  from upload_at[OF i k assms(3)] k show ?thesis by blast
qed

lemma rejected_upload_fails:
  assumes "user s = Some u"
    and "k < length (logo_requests env u s @ product_reqs env u s)"
    and "storage_upload env (calls s @ map Upload (take k (logo_requests env u s @ product_reqs env u s)))
           ((logo_requests env u s @ product_reqs env u s) ! k) = Inl e"
  shows "rejections (logo_answers env u s) \<noteq> [] \<or> rejections (product_answers env u s) \<noteq> []"
proof (cases "k < length (logo_requests env u s)")
  case True
  with assms(3) have "storage_upload env (calls s @ map Upload (take k (logo_requests env u s)))
           (logo_requests env u s ! k) = Inl e"
    by (simp add: nth_append)
  from rejected_answers[OF True this] show ?thesis by (simp add: logo_answers_def)
next
  case False
  define j where "j = k - length (logo_requests env u s)"
  from False assms(2) have j: "j < length (product_reqs env u s)" by (simp add: j_def)
  from False assms(3) have
    "storage_upload env ((calls s @ map Upload (logo_requests env u s)) @ map Upload (take j (product_reqs env u s)))
           (product_reqs env u s ! j) = Inl e"
    by (simp add: nth_append j_def)
  from rejected_answers[OF j this] show ?thesis by (simp add: product_answers_def)
qed

lemma show_nat_Suc_0: "show_nat (Suc 0) = ''1''"
  using show_nat.simps[of "Suc 0"] by (simp add: digit_char_def)

lemma show_nat_examples:
  "show_nat 0 = ''0''" "show_nat 170 = ''170''" "show_nat 171 = ''171''" "show_nat 172 = ''172''"
  by (simp_all add: show_nat.simps digit_char_def)

lemma example_uploads:
  "uploads (issued example_env example_draft) =
     [\<lparr>bucket = ''business-assets'', path = ''logos/u1/170_logo.png'', body = example_logo,
       cacheControl = ''3600'', upsert = False\<rparr>,
      \<lparr>bucket = ''business-assets'', path = ''products/u1/171_0_a.png'', body = example_images ! 0,
       cacheControl = ''3600'', upsert = False\<rparr>,
      \<lparr>bucket = ''business-assets'', path = ''products/u1/172_1_b.png'', body = example_images ! 1,
       cacheControl = ''3600'', upsert = False\<rparr>]"
  by (simp add: eval_defs example_defs show_nat_examples show_nat_Suc_0)

lemma example_rejected_issued:
  "issued rejecting_env example_draft =
     [Upload \<lparr>bucket = ''business-assets'', path = ''logos/u1/170_logo.png'', body = example_logo,
       cacheControl = ''3600'', upsert = False\<rparr>]"
  by (simp add: eval_defs example_defs show_nat_examples)






lemma example_insert_rejected_issued:
  "issued insert_rejecting_env (initial (Some example_user)) =
     [Insert ''businesses'' (insert_payload example_user initial_formData [] [])]"
  by (simp add: eval_defs insert_rejecting_env_def example_defs)

lemma example_image_rejected_uploads:
  "map path (uploads (issued image_rejecting_env example_draft)) =
     [''logos/u1/170_logo.png'', ''products/u1/171_0_a.png'', ''products/u1/172_1_b.png'']
   \<and> inserts (issued image_rejecting_env example_draft) = []"
  by (simp add: eval_defs image_rejecting_env_def example_defs show_nat_examples show_nat_Suc_0)

section \<open>Properties of the submission screen\<close>

text \<open>
  C3. A signed-in user submits. With a logo chosen, the first call issued is the
  upload of that logo. If the storage accepts it, the uploads issued are exactly the
  logo followed by one upload per product image, in order: \<open>1 + N\<close> uploads. If the
  storage rejects it, that upload is the only call issued: no product image is
  uploaded and nothing is inserted. With no logo and no product image, the only
  call issued is the insert. (The statement holds for every \<open>N\<close>, so for
  \<open>0 \<le> N \<le> 3\<close>.)
\<close>

theorem handleSubmit_upload_calls:
  assumes "user s = Some u"
  shows "(\<forall>lf. logoFile s = Some lf \<longrightarrow>
            (\<exists>req. take 1 (issued env s) = [Upload req] \<and> body req = lf \<and>
               (case storage_upload env (calls s) req of
                  Inr p \<Rightarrow> map body (uploads (issued env s)) = lf # productImages s
                          \<and> length (uploads (issued env s)) = 1 + length (productImages s)
                | Inl e \<Rightarrow> issued env s = [Upload req])))
       \<and> (logoFile s = None \<and> productImages s = [] \<longrightarrow>
            (\<exists>row. issued env s = [Insert ''businesses'' row]))"
proof (intro conjI allI impI)
  fix lf assume lf: "logoFile s = Some lf"
  note L = logo_requests_Some[OF lf, of env u]
  note A = logo_answers_Some[OF lf, of env u]
  from assms show "\<exists>req. take 1 (issued env s) = [Upload req] \<and> body req = lf \<and>
               (case storage_upload env (calls s) req of
                  Inr p \<Rightarrow> map body (uploads (issued env s)) = lf # productImages s
                          \<and> length (uploads (issued env s)) = 1 + length (productImages s)
                | Inl e \<Rightarrow> issued env s = [Upload req])"
  proof (cases rule: submission_summary[where env = env])
    case (logo_failed e)
    from logo_failed(1) have "storage_upload env (calls s) (hd (logo_requests env u s)) = Inl e"
      unfolding A by (simp split: sum.splits)
    with issued_finish[OF logo_failed(3)] show ?thesis
      by (simp add: L)
  next
    case (products_failed e)
    from products_failed(1) obtain p where "storage_upload env (calls s) (hd (logo_requests env u s)) = Inr p"
      unfolding A by (auto split: sum.splits)
    with issued_finish[OF products_failed(4)] show ?thesis
      by (simp add: L product_reqs_def)
  next
    case inserted
    from inserted(1) obtain p where "storage_upload env (calls s) (hd (logo_requests env u s)) = Inr p"
      unfolding A by (auto split: sum.splits)
    with issued_finish[OF inserted(3)] show ?thesis
      by (simp add: L product_reqs_def)
  qed
next
  assume a: "logoFile s = None \<and> productImages s = []"
  then have L: "logo_requests env u s = []" by (simp add: logo_requests_None)
  with a have P: "product_reqs env u s = []" by (simp add: product_reqs_def)
  from L have LA: "logo_answers env u s = []" by (simp add: logo_answers_def)
  from P have PA: "product_answers env u s = []" by (simp add: product_answers_def)
  from handleSubmit_inserting[OF assms, of env, THEN conjunct1] LA PA
  have "handleSubmit env s =
        (Inr (), finish (db_insert env (calls s) (insert_payload u (formData s) [] []))
           [Insert ''businesses'' (insert_payload u (formData s) [] [])] 0 s)"
    by (simp add: L P)
  from issued_finish[OF this] show "\<exists>row. issued env s = [Insert ''businesses'' row]" by simp
qed

text \<open>The three situations of C3 on concrete inputs.\<close>

theorem handleSubmit_upload_calls_witness:
  "user example_draft = Some example_user
   \<and> length (uploads (issued example_env example_draft)) = 3
   \<and> length (issued rejecting_env example_draft) = 1
   \<and> length (issued example_env (initial (Some example_user))) = 1"
  using handleSubmit_upload_calls[of example_draft example_user example_env]
    handleSubmit_upload_calls[of example_draft example_user rejecting_env]
    handleSubmit_upload_calls[of "initial (Some example_user)" example_user example_env]
  by (auto simp: example_defs)

text \<open>
  C4. A submit event with no signed-in user: no upload and no insert is issued, the
  user gets the "Authentication Required" toast and is sent to \<open>/auth/signin\<close>, and
  the handler returns normally with the rest of the state (loading flag, draft, logo,
  product images, call log) as it was.
\<close>

theorem handleSubmit_unauthenticated:
  assumes "user s = None"
  shows "handleSubmit env s =
           (Inr (),
            s\<lparr>toasts := toasts s @
                 [\<lparr>toast_title = ''Authentication Required'',
                   toast_description = ''Please sign in to list your business.'',
                   toast_variant = Some ''destructive''\<rparr>],
              navigations := navigations s @ [''/auth/signin'']\<rparr>)
         \<and> issued env s = []
         \<and> calls (snd (handleSubmit env s)) = calls s
         \<and> loading (snd (handleSubmit env s)) = loading s
         \<and> formData (snd (handleSubmit env s)) = formData s
         \<and> logoFile (snd (handleSubmit env s)) = logoFile s
         \<and> productImages (snd (handleSubmit env s)) = productImages s"
  using assms by (simp add: issued_def handleSubmit_def toast_def navigate_def)

text \<open>C4 on the freshly mounted screen with nobody signed in.\<close>

theorem handleSubmit_unauthenticated_witness:
  "user (initial None) = None
   \<and> issued example_env (initial None) = []
   \<and> navigations (snd (handleSubmit example_env (initial None))) = [''/auth/signin'']"
  using handleSubmit_unauthenticated[of "initial None" example_env]
  by (simp add: initial_def)

text \<open>
  C5. The screen has gone through any sequence of events since it was mounted and a
  signed-in user submits. In every insert payload issued, \<open>business_options\<close> is
  \<open>null\<close> when no option box is checked, and otherwise a list whose elements are
  exactly the options whose box is checked. Whether a box is checked
  (\<open>box_checked\<close>) depends only on the last change made to that box, not on the
  order in which the boxes were clicked.
\<close>

theorem business_options_checked_set:
  assumes "s = run env evs (initial u0)" and "user s = Some u"
    and "row \<in> set (inserts (issued env s))"
  shows "((\<forall>opt. \<not> box_checked evs opt) \<longrightarrow> business_options row = None)
       \<and> ((\<exists>opt. box_checked evs opt) \<longrightarrow>
            (\<exists>opts. business_options row = Some opts
               \<and> (\<forall>opt. opt \<in> set opts \<longleftrightarrow> box_checked evs opt)))"
proof -
  from issued_inserts[OF assms(2,3)] obtain logoUrl imageUrls where
    row: "row = insert_payload u (formData s) logoUrl imageUrls" by blast
  have mem: "\<And>opt. opt \<in> set (options (formData s)) \<longleftrightarrow> box_checked evs opt"
    unfolding assms(1) by (rule options_initial)
  show ?thesis
  proof (cases "options (formData s) = []")
    case True
    with mem have "\<forall>opt. \<not> box_checked evs opt" by auto
    with True show ?thesis by (simp add: row insert_payload_def)
  next
    case False
    then obtain opt where "opt \<in> set (options (formData s))" by (cases "options (formData s)") auto
    with mem have "\<exists>opt. box_checked evs opt" by auto
    with False mem show ?thesis by (simp add: row insert_payload_def)
  qed
qed

text \<open>C5 after checking two boxes and unchecking the first again, and with no box touched.\<close>

theorem business_options_checked_set_witness:
  "user (run example_env example_clicks (initial (Some example_user))) = Some example_user
   \<and> box_checked example_clicks ''Pickup In-Store''
   \<and> map business_options
        (inserts (issued example_env (run example_env example_clicks (initial (Some example_user)))))
       = [Some [''Pickup In-Store'']]
   \<and> map business_options (inserts (issued example_env (initial (Some example_user)))) = [None]"
  using business_options_checked_set[OF refl,
           of example_env example_clicks "Some example_user" example_user
              "hd (inserts (issued example_env
                 (run example_env example_clicks (initial (Some example_user)))))"]
  by (simp add: example_clicks_def box_checked_def eval_defs example_env_def example_user_def
        initial_def initial_formData_def)

text \<open>
  C6. Choosing files in the product-images input keeps the first three of them. After
  any sequence of events since the screen was mounted, at most three product images
  are selected, and every insert payload issued so far has \<open>product_images\<close>
  either \<open>null\<close> or a list of at most three URLs.
\<close>

theorem productImages_capped:
  "productImages (handleProductImagesChange (Some files) s) = take 3 files
   \<and> length (productImages (run env evs (initial u0))) \<le> 3
   \<and> (\<forall>row \<in> set (inserts (calls (run env evs (initial u0)))).
         case product_images row of None \<Rightarrow> True | Some imgs \<Rightarrow> length imgs \<le> 3)"
  using run_capped[OF initial_capped, of env evs u0]
  by (simp add: images_capped_def handleProductImagesChange_def list_all_iff)

text \<open>C6 on a selection of four files followed by a submission.\<close>

theorem productImages_capped_witness:
  "productImages (handleProductImagesChange (Some four_files) (initial None)) = take 3 four_files
   \<and> length (productImages (run example_env [ProductImagesChange (Some four_files), Submit]
                (initial (Some example_user)))) = 3
   \<and> map (map_option length \<circ> product_images)
        (inserts (calls (run example_env [ProductImagesChange (Some four_files), Submit]
                (initial (Some example_user))))) = [Some 3]"
  using productImages_capped[of four_files "initial None" example_env
           "[ProductImagesChange (Some four_files), Submit]" "Some example_user"]
  by (simp add: eval_defs four_files_def example_env_def example_user_def initial_def)

text \<open>
  C2. Claim: each of website, facebook page, tiktok url, starting price, products
  catalog and license-expiry date that is empty in the draft is \<open>null\<close> in the
  insert payload. The payload takes \<open>formData.website\<close> as it is, while the five
  other fields go through \<open>|| null\<close> (lemma \<open>optional_fields\<close>): a draft with
  the required fields filled and the website left empty is inserted with
  \<open>website\<close> the empty string.
\<close>

theorem website_empty_string_inserted:
  "website (formData (run example_env joes_cafe (initial (Some example_user)))) = []
   \<and> map row_website
        (inserts (calls (run example_env (joes_cafe @ [Submit]) (initial (Some example_user)))))
       = [Some []]
   \<and> map facebook_page
        (inserts (calls (run example_env (joes_cafe @ [Submit]) (initial (Some example_user)))))
       = [None]"
  by (simp add: joes_cafe_def eval_defs example_env_def example_user_def initial_def
        initial_formData_def)



text \<open>
  C9. A signed-in user \<open>u\<close> submits, and the \<open>k\<close>-th call issued is an upload.
  Its request has \<open>upsert\<close> off and goes to the bucket \<open>business-assets\<close>. If
  a logo is chosen and \<open>k = 0\<close>, the file is the logo and the path is
  \<open>logos/<u.id>/<now>_<file name>\<close>; otherwise the file is product image number
  \<open>i\<close> (\<open>i = k - 1\<close> with a logo, \<open>i = k\<close> without) and the path is
  \<open>products/<u.id>/<now>_<i>_<file name>\<close>, where \<open>now\<close> is the clock reading
  taken for that upload. If the storage answers this upload with an error, as it
  does for a path that is taken when \<open>upsert\<close> is off, the submission fails: no
  insert is issued, nothing is navigated to, and an "Error" toast is shown.
\<close>

theorem upload_paths:
  assumes "user s = Some u" and "k < length (issued env s)" and "issued env s ! k = Upload req"
  shows "upsert req = False \<and> bucket req = ''business-assets''
     \<and> (case logoFile s of
          Some lf \<Rightarrow>
            (if k = 0
             then body req = lf
                \<and> path req = ''logos/'' @ user_id u @ ''/'' @ show_nat (clock env (ticks s)) @ ''_''
                               @ file_name lf
             else k - 1 < length (productImages s)
                \<and> body req = productImages s ! (k - 1)
                \<and> path req = ''products/'' @ user_id u @ ''/'' @ show_nat (clock env (ticks s + k))
                               @ ''_'' @ show_nat (k - 1) @ ''_''
                               @ file_name (productImages s ! (k - 1)))
        | None \<Rightarrow>
            k < length (productImages s)
            \<and> body req = productImages s ! k
            \<and> path req = ''products/'' @ user_id u @ ''/'' @ show_nat (clock env (ticks s + k))
                           @ ''_'' @ show_nat k @ ''_'' @ file_name (productImages s ! k))
     \<and> (isl (storage_upload env (calls s @ take k (issued env s)) req) \<longrightarrow>
          inserts (issued env s) = []
          \<and> navigations (snd (handleSubmit env s)) = navigations s
          \<and> (\<exists>err. toasts (snd (handleSubmit env s)) = toasts s @
                [\<lparr>toast_title = ''Error'',
                  toast_description = message_or err ''Failed to list business. Please try again.'',
                  toast_variant = Some ''destructive''\<rparr>]))"
proof -
  from issued_upload[OF assms] have
    k: "k < length (logo_requests env u s @ product_reqs env u s)" and
    req: "req = (logo_requests env u s @ product_reqs env u s) ! k" and
    tk: "take k (issued env s) = map Upload (take k (logo_requests env u s @ product_reqs env u s))"
    by blast+
  have shape: "upsert req = False \<and> bucket req = ''business-assets''
     \<and> (case logoFile s of
          Some lf \<Rightarrow>
            (if k = 0
             then body req = lf
                \<and> path req = ''logos/'' @ user_id u @ ''/'' @ show_nat (clock env (ticks s)) @ ''_''
                               @ file_name lf
             else k - 1 < length (productImages s)
                \<and> body req = productImages s ! (k - 1)
                \<and> path req = ''products/'' @ user_id u @ ''/'' @ show_nat (clock env (ticks s + k))
                               @ ''_'' @ show_nat (k - 1) @ ''_''
                               @ file_name (productImages s ! (k - 1)))
        | None \<Rightarrow>
            k < length (productImages s)
            \<and> body req = productImages s ! k
            \<and> path req = ''products/'' @ user_id u @ ''/'' @ show_nat (clock env (ticks s + k))
                           @ ''_'' @ show_nat k @ ''_'' @ file_name (productImages s ! k))"
  proof (cases "logoFile s")
    case None
    with k show ?thesis unfolding req planned_nth[OF k] by (simp add: logo_requests_None)
  next
    case (Some lf)
    with k show ?thesis unfolding req planned_nth[OF k]
      by (cases k) (simp_all add: logo_requests_Some[OF Some])
  qed
  have coll: "inserts (issued env s) = []
          \<and> navigations (snd (handleSubmit env s)) = navigations s
          \<and> (\<exists>err. toasts (snd (handleSubmit env s)) = toasts s @
                [\<lparr>toast_title = ''Error'',
                  toast_description = message_or err ''Failed to list business. Please try again.'',
                  toast_variant = Some ''destructive''\<rparr>])"
    if "isl (storage_upload env (calls s @ take k (issued env s)) req)"
  proof -
    from that obtain e where "storage_upload env (calls s @ take k (issued env s)) req = Inl e"
      by (cases "storage_upload env (calls s @ take k (issued env s)) req") auto
    then have "storage_upload env
         (calls s @ map Upload (take k (logo_requests env u s @ product_reqs env u s)))
         ((logo_requests env u s @ product_reqs env u s) ! k) = Inl e"
      by (simp only: tk req)
    from rejected_upload_fails[OF assms(1) k this]
    have rej: "rejections (logo_answers env u s) \<noteq> [] \<or> rejections (product_answers env u s) \<noteq> []" .
    from assms(1) show ?thesis
    proof (cases rule: submission_summary[where env = env])
      case (logo_failed e')
      from issued_finish[OF logo_failed(3)] show ?thesis
        by (auto simp: logo_failed(3))
    next
      case (products_failed e')
      from issued_finish[OF products_failed(4)] show ?thesis
        by (auto simp: products_failed(4))
    next
      case inserted
      with rej show ?thesis by simp
    qed
  qed
  from shape coll show ?thesis by blast
qed

text \<open>C9 on the example draft: the three paths, and a rejected logo upload.\<close>

theorem upload_paths_witness:
  "user example_draft = Some example_user
   \<and> map path (uploads (issued example_env example_draft)) =
       [''logos/u1/170_logo.png'', ''products/u1/171_0_a.png'', ''products/u1/172_1_b.png'']
   \<and> map upsert (uploads (issued example_env example_draft)) = [False, False, False]
   \<and> isl (storage_upload rejecting_env (calls example_draft)
            (hd (uploads (issued rejecting_env example_draft))))
   \<and> inserts (issued rejecting_env example_draft) = []
   \<and> map toast_title (toasts (snd (handleSubmit rejecting_env example_draft))) = [''Error'']"
  using upload_paths[where s = example_draft and u = example_user and env = example_env
          and k = 1 and req = "uploads (issued example_env example_draft) ! 1"]
    upload_paths[where s = example_draft and u = example_user and env = rejecting_env
          and k = 0 and req = "hd (uploads (issued rejecting_env example_draft))"]
  by (simp add: example_uploads example_rejected_issued)
     (auto simp: eval_defs example_defs show_nat_examples show_nat_Suc_0)

text \<open>
  C10. Every insert payload that a submission by the signed-in user \<open>u\<close> issues
  carries \<open>owner_id = u.id\<close>; the screen sets it itself.
\<close>

theorem insert_owner_is_caller:
  assumes "user s = Some u"
  shows "\<forall>row \<in> set (inserts (issued env s)). owner_id row = user_id u"
  using assms
proof (cases rule: submission_summary[where env = env])
  case (logo_failed e)
  from issued_finish[OF logo_failed(3)] show ?thesis by simp
next
  case (products_failed e)
  from issued_finish[OF products_failed(4)] show ?thesis by simp
next
  case inserted
  from issued_finish[OF inserted(3)] show ?thesis by (simp add: insert_payload_def)
qed

text \<open>C10 on a submission that does reach the insert.\<close>

theorem insert_owner_is_caller_witness:
  "user (initial (Some example_user)) = Some example_user
   \<and> map owner_id (inserts (issued example_env (initial (Some example_user)))) = [''u1'']"
  using insert_owner_is_caller[of "initial (Some example_user)" example_user example_env]
  by (simp add: example_issued) (simp add: initial_def example_user_def)

end
